theory Spec2Isabelle
  imports Main
begin

section \<open>Exceptions\<close>

text \<open>
  A raised Python exception is a value. \<open>ValueError m\<close> is any instance of
  \<^verbatim>\<open>ValueError\<close> whose \<^verbatim>\<open>str(e)\<close> is \<open>m\<close> (the only class
  the source catches); \<open>OtherError cls m\<close> is an exception of any class \<open>cls\<close>
  that is not a \<^verbatim>\<open>ValueError\<close>.
\<close>

datatype exn = ValueError string | OtherError string string

text \<open>The substring test \<^verbatim>\<open>needle in haystack\<close> on strings.\<close>

fun starts_with :: "string \<Rightarrow> string \<Rightarrow> bool" where
  "starts_with [] s = True"
| "starts_with (p # ps) [] = False"
| "starts_with (p # ps) (c # cs) = (p = c \<and> starts_with ps cs)"

fun str_contains :: "string \<Rightarrow> string \<Rightarrow> bool" where
  "str_contains needle [] = (needle = [])"
| "str_contains needle (c # cs) = (starts_with needle (c # cs) \<or> str_contains needle cs)"

text \<open>
  The failure the source recovers from (views.py, lines 54-55):
  \<^verbatim>\<open>except ValueError as e: if "chunk_size must be provided" in str(e)\<close>.
\<close>

fun needs_chunk_size :: "exn \<Rightarrow> bool" where
  "needs_chunk_size (ValueError m) = str_contains ''chunk_size must be provided'' m"
| "needs_chunk_size (OtherError cls m) = False"

section \<open>The backing store: a Django queryset\<close>

text \<open>
  The queryset is the store's handle, outside the repository. The model keeps what the
  source uses of it: the records in the store's order, the field mapping
  \<^verbatim>\<open>values()\<close> gives for a record, and what \<^verbatim>\<open>iterator()\<close> called with
  no chunk size raises, if anything (Django raises the \<^verbatim>\<open>ValueError\<close>
  "chunk_size must be provided when using QuerySet.iterator() after prefetch_related()."
  there; another store may raise something else).
\<close>

record ('r, 'v) queryset =
  records :: "'r list"
  values_of :: "'r \<Rightarrow> 'v"
  default_cursor_error :: "exn option"

text \<open>
  \<^verbatim>\<open>queryset[:n]\<close>: the first \<open>n\<close> records, as a new queryset; Django refuses
  a negative bound when the slice is taken.
\<close>

definition qs_slice :: "('r, 'v) queryset \<Rightarrow> int \<Rightarrow> exn + ('r, 'v) queryset" where
  "qs_slice q n =
     (if n < 0 then Inl (ValueError ''Negative indexing is not supported.'')
      else Inr (q\<lparr>records := take (nat n) (records q)\<rparr>))"

text \<open>
  \<^verbatim>\<open>queryset.iterator(chunk_size=cs)\<close>: with no chunk size the store's default
  cursor, which may be refused; with a chunk size Django refuses only a non-positive one.
  The iterator that comes back runs over the records in order.
\<close>

definition qs_iterator :: "('r, 'v) queryset \<Rightarrow> int option \<Rightarrow> exn + 'r list" where
  "qs_iterator q chunk_size =
     (case chunk_size of
        None \<Rightarrow> (case default_cursor_error q of Some e \<Rightarrow> Inl e | None \<Rightarrow> Inr (records q))
      | Some cs \<Rightarrow>
          (if cs \<le> 0 then Inl (ValueError ''Chunk size must be strictly positive.'')
           else Inr (records q)))"

text \<open>\<^verbatim>\<open>queryset.values()\<close>, evaluated: one field mapping per record, in order.\<close>

definition qs_values :: "('r, 'v) queryset \<Rightarrow> 'v list" where
  "qs_values q = map (values_of q) (records q)"

section \<open>The view\<close>

text \<open>
  A serializer class, as the source uses it: \<open>to_one c obj\<close> is
  \<^verbatim>\<open>serializer_class(obj, context=c).data\<close> and \<open>to_many c objs\<close> is
  \<^verbatim>\<open>serializer_class(objs, many=True, context=c).data\<close>.
\<close>

record ('r, 'c, 'v) serializer =
  to_one :: "'c \<Rightarrow> 'r \<Rightarrow> 'v"
  to_many :: "'c \<Rightarrow> 'r list \<Rightarrow> 'v list"

text \<open>
  What \<^verbatim>\<open>paginate_queryset\<close> hands back when it narrows: the paginators of the
  framework give a list of records, the spec's paginator contract a query.
\<close>

datatype ('r, 'v) page = PageList "'r list" | PageQuery "('r, 'v) queryset"

text \<open>
  The attributes and inherited methods of the view that the source reads. They come from
  \<^verbatim>\<open>CSVResponseMixin\<close> and the framework's generic views, so they are parameters:
  \<open>csv_rows_count\<close> is what \<^verbatim>\<open>get_csv_rows_count()\<close> returns,
  \<open>csv_streaming_chunk_size\<close> is \<open>None\<close> when the attribute is absent,
  \<open>serializer_class\<close> is \<open>None\<close> when the attribute is absent or falsy, and
  \<open>serializer_context\<close> is what \<^verbatim>\<open>get_serializer_context()\<close> returns or raises.
\<close>

record ('r, 'c, 'v) view =
  csv_streaming :: bool
  csv_rows_count :: "int option"
  csv_streaming_chunk_size :: "int option"
  serializer_class :: "('r, 'c, 'v) serializer option"
  serializer_context :: "exn + 'c"
  paginate_queryset :: "('r, 'v) queryset \<Rightarrow> exn + ('r, 'v) page option"

text \<open>
  The calls the source makes on its collaborators, in the order they happen: a cursor
  opened on the store, the paginator asked, a serializer context built, a serializer run
  on one record or on a whole list.
\<close>

datatype ('r, 'c) event =
    CursorOpen "int option"
  | Paginate "'r list"
  | GetSerializerContext
  | SerializeOne 'c 'r
  | SerializeMany 'c "'r list"

text \<open>What \<^verbatim>\<open>next()\<close> on a generator does: a row, the end, or an exception.\<close>

datatype 'v step = Yield 'v | StopIteration | Raise exn

section \<open>CSVListView\<close>

subsection \<open>The generator of \_get\_serialized\_stream\<close>

text \<open>
  \<^verbatim>\<open>_get_serialized_stream\<close> (lines 47-64) is a generator function: calling it
  runs none of its body and returns a generator object. The object is \<open>Unstarted\<close>
  with the queryset it was given until the first \<^verbatim>\<open>next()\<close>, \<open>Suspended\<close> at
  the \<^verbatim>\<open>yield\<close> of line 64 with its local \<^verbatim>\<open>serializer_class\<close> and the
  rest of its iterator, and \<open>Finished\<close> once it has returned or raised.
\<close>

datatype ('r, 'c, 'v) stream =
    Unstarted "('r, 'v) queryset"
  | Suspended "('r, 'c, 'v) serializer" "'r list"
  | Finished

definition get_serialized_stream ::
  "('r, 'c, 'v) view \<Rightarrow> ('r, 'v) queryset \<Rightarrow> ('r, 'c, 'v) stream" where
  "get_serialized_stream v queryset = Unstarted queryset"

text \<open>
  \<^verbatim>\<open>get_serializer_class()\<close> of the framework: the view's serializer class, and an
  assertion error when there is none.
\<close>

definition get_serializer_class :: "('r, 'c, 'v) view \<Rightarrow> exn + ('r, 'c, 'v) serializer" where
  "get_serializer_class v =
     (case serializer_class v of
        None \<Rightarrow> Inl (OtherError ''AssertionError'' ''serializer_class is not set'')
      | Some sc \<Rightarrow> Inr sc)"

text \<open>\<^verbatim>\<open>getattr(self, 'csv_streaming_chunk_size', 1000)\<close>, line 57.\<close>

definition streaming_chunk_size :: "('r, 'c, 'v) view \<Rightarrow> int" where
  "streaming_chunk_size v = (case csv_streaming_chunk_size v of None \<Rightarrow> 1000 | Some cs \<Rightarrow> cs)"

text \<open>
  Lines 51-60, the \<^verbatim>\<open>try\<close> statement: the iterator or the exception that leaves
  the statement, with the cursors it asked the store for.
\<close>

definition open_iterator ::
  "('r, 'c, 'v) view \<Rightarrow> ('r, 'v) queryset \<Rightarrow> (exn + 'r list) \<times> ('r, 'c) event list" where
  "open_iterator v queryset =
     (case qs_iterator queryset None of
        Inr iterator \<Rightarrow> (Inr iterator, [CursorOpen None])
      | Inl e \<Rightarrow>
          (if needs_chunk_size e then
             (let chunk_size = streaming_chunk_size v
              in (qs_iterator queryset (Some chunk_size),
                  [CursorOpen None, CursorOpen (Some chunk_size)]))
           else (Inl e, [CursorOpen None])))"

text \<open>
  Lines 62-64, the \<^verbatim>\<open>for\<close> loop from the point where it asks the iterator for
  its next object: the context is built by a call of \<^verbatim>\<open>get_serializer_context()\<close>
  inside the loop body, then the serializer is run on the one object.
\<close>

fun serialized_stream_loop ::
  "('r, 'c, 'v) view \<Rightarrow> ('r, 'c, 'v) serializer \<Rightarrow> 'r list \<Rightarrow> ('r, 'c) event list \<Rightarrow>
     'v step \<times> ('r, 'c, 'v) stream \<times> ('r, 'c) event list" where
  "serialized_stream_loop v sc [] log = (StopIteration, Finished, log)"
| "serialized_stream_loop v sc (obj # iterator) log =
     (case serializer_context v of
        Inl e \<Rightarrow> (Raise e, Finished, log @ [GetSerializerContext])
      | Inr c \<Rightarrow>
          (Yield (to_one sc c obj), Suspended sc iterator,
           log @ [GetSerializerContext, SerializeOne c obj]))"

text \<open>One \<^verbatim>\<open>next()\<close> on the generator.\<close>

fun serialized_stream_next ::
  "('r, 'c, 'v) view \<Rightarrow> ('r, 'c, 'v) stream \<Rightarrow> ('r, 'c) event list \<Rightarrow>
     'v step \<times> ('r, 'c, 'v) stream \<times> ('r, 'c) event list" where
  "serialized_stream_next v (Unstarted queryset) log =
     (case get_serializer_class v of
        Inl e \<Rightarrow> (Raise e, Finished, log)
      | Inr sc \<Rightarrow>
          (case open_iterator v queryset of
             (Inl e, evs) \<Rightarrow> (Raise e, Finished, log @ evs)
           | (Inr iterator, evs) \<Rightarrow> serialized_stream_loop v sc iterator (log @ evs)))"
| "serialized_stream_next v (Suspended sc iterator) log = serialized_stream_loop v sc iterator log"
| "serialized_stream_next v Finished log = (StopIteration, Finished, log)"

text \<open>
  Pulling up to \<open>k\<close> rows from the generator: the rows obtained, and the generator
  and the calls as the last \<^verbatim>\<open>next()\<close> left them; the pulling stops at the end or at
  an exception.
\<close>

fun serialized_stream_pull ::
  "nat \<Rightarrow> ('r, 'c, 'v) view \<Rightarrow> ('r, 'c, 'v) stream \<Rightarrow> ('r, 'c) event list \<Rightarrow>
     'v list \<times> ('r, 'c, 'v) stream \<times> ('r, 'c) event list" where
  "serialized_stream_pull 0 v s log = ([], s, log)"
| "serialized_stream_pull (Suc k) v s log =
     (case serialized_stream_next v s log of
        (Yield row, s', log') \<Rightarrow>
          (case serialized_stream_pull k v s' log' of (rows, rest) \<Rightarrow> (row # rows, rest))
      | (StopIteration, s', log') \<Rightarrow> ([], s', log')
      | (Raise e, s', log') \<Rightarrow> ([], s', log'))"

fun stream_size :: "('r, 'c, 'v) stream \<Rightarrow> nat" where
  "stream_size (Unstarted queryset) = Suc (length (records queryset))"
| "stream_size (Suspended sc iterator) = length iterator"
| "stream_size Finished = 0"

lemma qs_iterator_records: "qs_iterator q cs = Inr iterator \<Longrightarrow> iterator = records q"
  by (auto simp: qs_iterator_def split: option.splits if_splits)

lemma open_iterator_records: "open_iterator v q = (Inr iterator, evs) \<Longrightarrow> iterator = records q"
  by (auto simp: open_iterator_def Let_def split: sum.splits if_splits
      dest: qs_iterator_records)

lemma serialized_stream_loop_shorter:
  "serialized_stream_loop v sc iterator log = (Yield row, s', log') \<Longrightarrow>
     stream_size s' < length iterator"
  by (cases iterator) (auto split: sum.splits)

lemma serialized_stream_next_shorter:
  "serialized_stream_next v s log = (Yield row, s', log') \<Longrightarrow> stream_size s' < stream_size s"
proof (cases s)
  case (Unstarted q)
  assume "serialized_stream_next v s log = (Yield row, s', log')"
  with Unstarted obtain sc evs
    where "serialized_stream_loop v sc (records q) (log @ evs) = (Yield row, s', log')"
    by (auto split: sum.splits prod.splits dest: open_iterator_records)
  from serialized_stream_loop_shorter [OF this] Unstarted show ?thesis by simp
next
  case (Suspended sc iterator)
  assume "serialized_stream_next v s log = (Yield row, s', log')"
  with Suspended serialized_stream_loop_shorter [of v sc iterator log row s' log']
  show ?thesis by simp
next
  case Finished
  assume "serialized_stream_next v s log = (Yield row, s', log')"
  with Finished show ?thesis by simp
qed

text \<open>
  Consuming the generator to its end, as a \<^verbatim>\<open>for\<close> loop over it does: the rows
  it yielded, the exception that ended it if one did, and the calls made.
\<close>

function serialized_stream_drain ::
  "('r, 'c, 'v) view \<Rightarrow> ('r, 'c, 'v) stream \<Rightarrow> ('r, 'c) event list \<Rightarrow>
     'v list \<times> exn option \<times> ('r, 'c) event list" where
  "serialized_stream_drain v s log =
     (case serialized_stream_next v s log of
        (Yield row, s', log') \<Rightarrow>
          (case serialized_stream_drain v s' log' of (rows, rest) \<Rightarrow> (row # rows, rest))
      | (StopIteration, s', log') \<Rightarrow> ([], None, log')
      | (Raise e, s', log') \<Rightarrow> ([], Some e, log'))"
  by pat_completeness auto
termination
  by (relation "measure (\<lambda>(v, s, log). stream_size s)")
     (auto dest: serialized_stream_next_shorter [OF sym])

declare serialized_stream_drain.simps [simp del]

subsection \<open>get\_csv\_data\<close>

text \<open>
  What \<^verbatim>\<open>get_csv_data\<close> returns: a list of rows, the generator of
  \<^verbatim>\<open>_get_serialized_stream\<close>, or the generator expression of line 31, given by
  the rows it has still to yield.
\<close>

datatype ('r, 'c, 'v) csv_data =
    Rows "'v list"
  | SerializedStream "('r, 'c, 'v) stream"
  | ValuesStream "'v list"

text \<open>\<^verbatim>\<open>if rows_count is not None: queryset = queryset[:rows_count]\<close>, lines 25-26 and 34-35.\<close>

definition limit_queryset :: "int option \<Rightarrow> ('r, 'v) queryset \<Rightarrow> exn + ('r, 'v) queryset" where
  "limit_queryset rows_count queryset =
     (case rows_count of None \<Rightarrow> Inr queryset | Some n \<Rightarrow> qs_slice queryset n)"

text \<open>
  What line 39 leaves in \<^verbatim>\<open>queryset\<close> is the page when there is one. The
  serializer iterates it; \<^verbatim>\<open>.values()\<close> exists on a query only.
\<close>

fun page_records :: "('r, 'v) page \<Rightarrow> 'r list" where
  "page_records (PageList objs) = objs"
| "page_records (PageQuery q) = records q"

fun page_values :: "('r, 'v) page \<Rightarrow> exn + 'v list" where
  "page_values (PageList objs) =
     Inl (OtherError ''AttributeError'' ''list object has no attribute values'')"
| "page_values (PageQuery q) = Inr (qs_values q)"

text \<open>
  Lines 42-43: \<^verbatim>\<open>get_serializer(queryset, many=True)\<close> of the framework resolves
  the class, builds the context once and runs the serializer on the whole sequence.
\<close>

definition get_serializer_many ::
  "('r, 'c, 'v) view \<Rightarrow> 'r list \<Rightarrow> ('r, 'c) event list \<Rightarrow>
     (exn + ('r, 'c, 'v) csv_data) \<times> ('r, 'c) event list" where
  "get_serializer_many v objs log =
     (case get_serializer_class v of
        Inl e \<Rightarrow> (Inl e, log)
      | Inr sc \<Rightarrow>
          (case serializer_context v of
             Inl e \<Rightarrow> (Inl e, log @ [GetSerializerContext])
           | Inr c \<Rightarrow>
               (Inr (Rows (to_many sc c objs)),
                log @ [GetSerializerContext, SerializeMany c objs])))"

text \<open>
  \<^verbatim>\<open>get_csv_data\<close>, lines 18-45. \<open>queryset\<close> is what
  \<^verbatim>\<open>self.filter_queryset(self.get_queryset())\<close> gave.
\<close>

definition get_csv_data ::
  "('r, 'c, 'v) view \<Rightarrow> ('r, 'v) queryset \<Rightarrow> ('r, 'c) event list \<Rightarrow>
     (exn + ('r, 'c, 'v) csv_data) \<times> ('r, 'c) event list" where
  "get_csv_data v queryset log =
     (let rows_count = csv_rows_count v in
      if csv_streaming v then
        (case limit_queryset rows_count queryset of
           Inl e \<Rightarrow> (Inl e, log)
         | Inr queryset \<Rightarrow>
             (case serializer_class v of
                Some sc \<Rightarrow> (Inr (SerializedStream (get_serialized_stream v queryset)), log)
              | None \<Rightarrow> (Inr (ValuesStream (qs_values queryset)), log)))
      else
        (case limit_queryset rows_count queryset of
           Inl e \<Rightarrow> (Inl e, log)
         | Inr queryset \<Rightarrow>
             (case paginate_queryset v queryset of
                Inl e \<Rightarrow> (Inl e, log @ [Paginate (records queryset)])
              | Inr page \<Rightarrow>
                  (let data = (case page of None \<Rightarrow> PageQuery queryset | Some p \<Rightarrow> p);
                       log = log @ [Paginate (records queryset)]
                   in case serializer_class v of
                        Some sc \<Rightarrow> get_serializer_many v (page_records data) log
                      | None \<Rightarrow>
                          (case page_values data of
                             Inl e \<Rightarrow> (Inl e, log)
                           | Inr rows \<Rightarrow> (Inr (Rows rows), log))))))"

text \<open>
  What the caller gets when it iterates the returned data to the end: the rows, the
  exception that ended the iteration if one did, and the calls made.
\<close>

fun consume ::
  "('r, 'c, 'v) view \<Rightarrow> ('r, 'c, 'v) csv_data \<Rightarrow> ('r, 'c) event list \<Rightarrow>
     'v list \<times> exn option \<times> ('r, 'c) event list" where
  "consume v (Rows rows) log = (rows, None, log)"
| "consume v (SerializedStream s) log = serialized_stream_drain v s log"
| "consume v (ValuesStream rows) log = (rows, None, log)"

text \<open>Whether returned data is a lazy sequence rather than a list.\<close>

fun is_lazy :: "('r, 'c, 'v) csv_data \<Rightarrow> bool" where
  "is_lazy (Rows rows) = False"
| "is_lazy (SerializedStream s) = True"
| "is_lazy (ValuesStream rows) = True"

section \<open>CSVGenericView.apply\_rows\_limit\<close>

text \<open>
  An iterator, as \<^verbatim>\<open>enumerate\<close> reads it: \<open>item_at u k\<close> is what the iterator
  gives at its \<open>k\<close>-th \<^verbatim>\<open>next()\<close>, an item or \<open>None\<close> when it has ended by
  then, and \<open>consumed u\<close> is the number of items it has handed out. The sequence may be
  finite or have no end (a generator that never stops).
\<close>

record 'a upstream =
  item_at :: "nat \<Rightarrow> 'a option"
  consumed :: nat

definition upstream_next :: "'a upstream \<Rightarrow> ('a \<times> 'a upstream) option" where
  "upstream_next u =
     (case item_at u (consumed u) of
        None \<Rightarrow> None
      | Some x \<Rightarrow> Some (x, u\<lparr>consumed := Suc (consumed u)\<rparr>))"

text \<open>A fresh iterator over the finitely many items \<open>xs\<close>.\<close>

definition nth_item :: "'a list \<Rightarrow> nat \<Rightarrow> 'a option" where
  "nth_item xs k = (if k < length xs then Some (xs ! k) else None)"

definition iter_list :: "'a list \<Rightarrow> 'a upstream" where
  "iter_list xs = \<lparr>item_at = nth_item xs, consumed = 0\<rparr>"

text \<open>
  The values \<^verbatim>\<open>apply_rows_limit\<close> tells apart: a list, a str, a bytes, a dict,
  any other object with \<^verbatim>\<open>__iter__\<close> (given by the iterator that
  \<^verbatim>\<open>enumerate\<close> takes from it), and an object without \<^verbatim>\<open>__iter__\<close>.
\<close>

datatype 'a pydata =
    PyList (list_items: "'a list")
  | PyStr string
  | PyBytes string
  | PyDict "(string \<times> 'a) list"
  | PyIterable (iterator_of: "'a upstream")
  | PyObject 'a

text \<open>\<^verbatim>\<open>isinstance(data, list)\<close>, line 83.\<close>

fun isinstance_list :: "'a pydata \<Rightarrow> bool" where
  "isinstance_list (PyList xs) = True"
| "isinstance_list data = False"

text \<open>
  \<^verbatim>\<open>hasattr(data, "__iter__")\<close>, line 85: a list, a str, a bytes and a dict have the
  attribute too.
\<close>

fun has_iter :: "'a pydata \<Rightarrow> bool" where
  "has_iter (PyObject x) = False"
| "has_iter data = True"

text \<open>\<^verbatim>\<open>isinstance(data, (str, bytes, dict))\<close>, line 85.\<close>

fun isinstance_str_bytes_dict :: "'a pydata \<Rightarrow> bool" where
  "isinstance_str_bytes_dict (PyStr s) = True"
| "isinstance_str_bytes_dict (PyBytes b) = True"
| "isinstance_str_bytes_dict (PyDict d) = True"
| "isinstance_str_bytes_dict data = False"

text \<open>
  What \<^verbatim>\<open>apply_rows_limit\<close> returns: a value (the argument itself or a new
  list), or the generator expression of line 86, which holds the limit, the index
  \<^verbatim>\<open>enumerate\<close> has reached and the iterator it reads.
\<close>

datatype 'a limited = Data "'a pydata" | Genexpr int nat "'a upstream"

text \<open>\<^verbatim>\<open>data[:n]\<close> on a list: a negative bound counts from the end.\<close>

definition list_slice :: "'a list \<Rightarrow> int \<Rightarrow> 'a list" where
  "list_slice xs n =
     (if 0 \<le> n then take (nat n) xs else take (nat (int (length xs) + n)) xs)"

text \<open>
  views.py, lines 79-87; \<open>rows_count\<close> is what \<^verbatim>\<open>get_csv_rows_count()\<close>
  returned. The second test holds, after the first has failed, for a \<open>PyIterable\<close> only.
\<close>

definition apply_rows_limit :: "int option \<Rightarrow> 'a pydata \<Rightarrow> 'a limited" where
  "apply_rows_limit rows_count data =
     (case rows_count of
        None \<Rightarrow> Data data
      | Some n \<Rightarrow>
          (if isinstance_list data then Data (PyList (list_slice (list_items data) n))
           else if has_iter data \<and> \<not> isinstance_str_bytes_dict data
           then Genexpr n 0 (iterator_of data)
           else Data data))"

text \<open>
  One \<^verbatim>\<open>next()\<close> on
  \<^verbatim>\<open>(item for i, item in enumerate(data) if i < rows_count)\<close>: the loop reads
  the upstream until an item passes the filter or the upstream ends. Nothing in the loop
  stops it at the limit, so it need not end: \<open>None\<close> is a \<^verbatim>\<open>next()\<close> that never
  returns.
\<close>

partial_function (option) genexpr_next ::
  "int \<Rightarrow> nat \<Rightarrow> 'a upstream \<Rightarrow> ('a step \<times> nat \<times> 'a upstream) option" where
  "genexpr_next rows_count i u =
     (case upstream_next u of
        None \<Rightarrow> Some (StopIteration, i, u)
      | Some (item, u') \<Rightarrow>
          (if int i < rows_count then Some (Yield item, Suc i, u')
           else genexpr_next rows_count (Suc i) u'))"

text \<open>
  Pulling up to \<open>k\<close> items from the generator expression: the items obtained, and
  the index and the upstream as the last \<^verbatim>\<open>next()\<close> left them; \<open>None\<close> when a
  \<^verbatim>\<open>next()\<close> does not return.
\<close>

fun genexpr_pull ::
  "nat \<Rightarrow> int \<Rightarrow> nat \<Rightarrow> 'a upstream \<Rightarrow> ('a list \<times> nat \<times> 'a upstream) option" where
  "genexpr_pull 0 rows_count i u = Some ([], i, u)"
| "genexpr_pull (Suc k) rows_count i u =
     (case genexpr_next rows_count i u of
        None \<Rightarrow> None
      | Some (Yield item, i', u') \<Rightarrow>
          Option.bind (genexpr_pull k rows_count i' u')
            (\<lambda>(items, s). Some (item # items, s))
      | Some (StopIteration, i', u') \<Rightarrow> Some ([], i', u')
      | Some (Raise e, i', u') \<Rightarrow> Some ([], i', u'))"

text \<open>
  Consuming the generator expression to its end, as a \<^verbatim>\<open>for\<close> loop over it does;
  \<open>None\<close> when the loop never ends.
\<close>

partial_function (option) genexpr_drain ::
  "int \<Rightarrow> nat \<Rightarrow> 'a upstream \<Rightarrow> ('a list \<times> nat \<times> 'a upstream) option" where
  "genexpr_drain rows_count i u =
     (case genexpr_next rows_count i u of
        None \<Rightarrow> None
      | Some (Yield item, i', u') \<Rightarrow>
          Option.bind (genexpr_drain rows_count i' u')
            (\<lambda>(items, s). Some (item # items, s))
      | Some (StopIteration, i', u') \<Rightarrow> Some ([], i', u')
      | Some (Raise e, i', u') \<Rightarrow> Some ([], i', u'))"

declare genexpr_next.simps [code] genexpr_drain.simps [code]

section \<open>Expected call sequences and example values\<close>

text \<open>
  The calls a run of lines 62-64 over the objects \<open>objs\<close> makes when every context is
  built: for each object one \<^verbatim>\<open>get_serializer_context()\<close> and one serializer run.
\<close>

fun per_record_events :: "'c \<Rightarrow> 'r list \<Rightarrow> ('r, 'c) event list" where
  "per_record_events c [] = []"
| "per_record_events c (obj # objs) =
     GetSerializerContext # SerializeOne c obj # per_record_events c objs"

text \<open>
  A store of three records, a serializer whose batch form maps its per-record form, and a
  streaming view with no row limit, no chunk size attribute and no paginator; the closed
  theorems below vary them field by field.
\<close>

definition example_serializer :: "(nat, nat, nat) serializer" where
  "example_serializer =
     \<lparr>to_one = (\<lambda>c obj. obj + c), to_many = (\<lambda>c objs. map (\<lambda>obj. obj + c) objs)\<rparr>"

definition example_queryset :: "(nat, nat) queryset" where
  "example_queryset = \<lparr>records = [1, 2, 3], values_of = (\<lambda>r. r), default_cursor_error = None\<rparr>"

definition example_view :: "(nat, nat, nat) view" where
  "example_view =
     \<lparr>csv_streaming = True, csv_rows_count = None, csv_streaming_chunk_size = None,
      serializer_class = Some example_serializer, serializer_context = Inr 100,
      paginate_queryset = (\<lambda>q. Inr None)\<rparr>"

definition prefetch_error :: exn where
  "prefetch_error = ValueError
     ''chunk_size must be provided when using QuerySet.iterator() after prefetch_related().''"

text \<open>
  A serializer whose batch form has a list-wide effect: it adds the number of records of
  the batch to every row.
\<close>

definition example_counting_serializer :: "(nat, nat, nat) serializer" where
  "example_counting_serializer =
     \<lparr>to_one = (\<lambda>c obj. obj + c),
      to_many = (\<lambda>c objs. map (\<lambda>obj. obj + c + length objs) objs)\<rparr>"

text \<open>An iterator with no end, in the manner of \<^verbatim>\<open>itertools.count()\<close>.\<close>

definition count_up :: "nat upstream" where
  "count_up = \<lparr>item_at = (\<lambda>k. Some k), consumed = 0\<rparr>"

text \<open>A paginator in the manner of limit/offset pagination: offset 1, limit 2, as a list.\<close>

definition example_paginator :: "(nat, nat) queryset \<Rightarrow> exn + (nat, nat) page option" where
  "example_paginator q = Inr (Some (PageList (take 2 (drop 1 (records q)))))"

section \<open>Properties of apply\_rows\_limit\<close>

lemma upstream_next_list:
  "upstream_next \<lparr>item_at = nth_item xs, consumed = c\<rparr> =
     (if c < length xs then Some (xs ! c, \<lparr>item_at = nth_item xs, consumed = Suc c\<rparr>)
      else None)"
  by (simp add: upstream_next_def nth_item_def)

lemma genexpr_next_list:
  "genexpr_next rc i \<lparr>item_at = nth_item xs, consumed = c\<rparr> =
     (if c < length xs then
        (if int i < rc
         then Some (Yield (xs ! c), Suc i, \<lparr>item_at = nth_item xs, consumed = Suc c\<rparr>)
         else genexpr_next rc (Suc i) \<lparr>item_at = nth_item xs, consumed = Suc c\<rparr>)
      else Some (StopIteration, i, \<lparr>item_at = nth_item xs, consumed = c\<rparr>))"
  by (subst genexpr_next.simps) (simp add: upstream_next_list)

lemma genexpr_next_skip:
  "\<not> int i < rc \<Longrightarrow> c \<le> length xs \<Longrightarrow>
     genexpr_next rc i \<lparr>item_at = nth_item xs, consumed = c\<rparr> =
       Some (StopIteration, i + (length xs - c),
             \<lparr>item_at = nth_item xs, consumed = length xs\<rparr>)"
proof (induction "length xs - c" arbitrary: i c)
  case 0
  then have "c = length xs" by simp
  then show ?case by (simp add: genexpr_next_list)
next
  case (Suc n)
  then have lt: "c < length xs" and n: "n = length xs - Suc c" by simp_all
  from Suc.prems(1) have "\<not> int (Suc i) < rc" by simp
  from Suc.hyps(1) [OF n this] lt Suc.prems(1) show ?case
    by (simp add: genexpr_next_list [of rc i xs c])
qed

lemma genexpr_drain_list:
  "c \<le> length xs \<Longrightarrow>
     genexpr_drain rc i \<lparr>item_at = nth_item xs, consumed = c\<rparr> =
       Some (take (nat (rc - int i)) (drop c xs), i + (length xs - c),
             \<lparr>item_at = nth_item xs, consumed = length xs\<rparr>)"
proof (induction "length xs - c" arbitrary: i c)
  case 0
  then have "c = length xs" by simp
  then show ?case
    by (subst genexpr_drain.simps) (simp add: genexpr_next_list)
next
  case (Suc n)
  then have lt: "c < length xs" and n: "n = length xs - Suc c" by simp_all
  show ?case
  proof (cases "int i < rc")
    case True
    then have k: "nat (rc - int i) = Suc (nat (rc - int (Suc i)))" by simp
    from lt have d: "drop c xs = xs ! c # drop (Suc c) xs" by (simp add: Cons_nth_drop_Suc)
    from lt have "Suc c \<le> length xs" by simp
    from Suc.hyps(1) [OF n this, of "Suc i"] True lt show ?thesis
      by (subst genexpr_drain.simps) (simp add: genexpr_next_list [of rc i xs c] k d)
  next
    case False
    with Suc.prems show ?thesis
      by (subst genexpr_drain.simps) (simp add: genexpr_next_skip)
  qed
qed

lemma genexpr_pull_list:
  "c + k \<le> length xs \<Longrightarrow> int (i + k) \<le> rc \<Longrightarrow>
     genexpr_pull k rc i \<lparr>item_at = nth_item xs, consumed = c\<rparr> =
       Some (take k (drop c xs), i + k, \<lparr>item_at = nth_item xs, consumed = c + k\<rparr>)"
proof (induction k arbitrary: i c)
  case 0
  show ?case by simp
next
  case (Suc k)
  then have lt: "c < length xs" and i: "int i < rc" by simp_all
  from lt have d: "drop c xs = xs ! c # drop (Suc c) xs" by (simp add: Cons_nth_drop_Suc)
  from Suc.prems have "Suc c + k \<le> length xs" "int (Suc i + k) \<le> rc" by simp_all
  from Suc.IH [OF this] lt i show ?case
    by (simp add: genexpr_next_list [of rc i xs c] d)
qed

text \<open>
  On a finite upstream the generator expression yields the first items up to the limit
  and ends only after it has read the upstream to its end.
\<close>

lemma genexpr_drain_iter_list:
  "genexpr_drain L 0 (iter_list xs) =
     Some (take (nat L) xs, length xs, (iter_list xs)\<lparr>consumed := length xs\<rparr>)"
  using genexpr_drain_list [of 0 xs L 0] by (simp add: iter_list_def)

lemma genexpr_pull_iter_list:
  "k \<le> length xs \<Longrightarrow> int k \<le> L \<Longrightarrow>
     genexpr_pull k L 0 (iter_list xs) = Some (take k xs, k, (iter_list xs)\<lparr>consumed := k\<rparr>)"
  using genexpr_pull_list [of 0 k xs 0 L] by (simp add: iter_list_def)

text \<open>
  On an upstream with no end, a \<^verbatim>\<open>next()\<close> past the limit never returns: the
  filter rejects every item and the loop goes on reading.
\<close>

lemma genexpr_next_unbounded:
  assumes unb: "\<And>k. item_at u k \<noteq> None" and past: "\<not> int i < rc"
  shows "genexpr_next rc i u = None"
proof (rule ccontr)
  assume "genexpr_next rc i u \<noteq> None"
  then obtain y where ret: "genexpr_next rc i u = Some y" by auto
  have "(\<forall>k. item_at u k \<noteq> None) \<longrightarrow> \<not> int i < rc \<longrightarrow> False"
  proof (rule genexpr_next.raw_induct
      [where P = "\<lambda>rc i u y. (\<forall>k. item_at u k \<noteq> None) \<longrightarrow> \<not> int i < rc \<longrightarrow> False", OF _ ret])
    fix f :: "int \<Rightarrow> nat \<Rightarrow> 'a upstream \<Rightarrow> ('a step \<times> nat \<times> 'a upstream) option"
      and rc i u y
    assume IH: "\<And>rc i u y. f rc i u = Some y \<Longrightarrow>
        (\<forall>k. item_at u k \<noteq> None) \<longrightarrow> \<not> int i < rc \<longrightarrow> False"
      and body: "(case upstream_next u of
          None \<Rightarrow> Some (StopIteration, i, u)
        | Some (item, u') \<Rightarrow>
            if int i < rc then Some (Yield item, Suc i, u') else f rc (Suc i) u') = Some y"
    show "(\<forall>k. item_at u k \<noteq> None) \<longrightarrow> \<not> int i < rc \<longrightarrow> False"
    proof (intro impI)
      assume all: "\<forall>k. item_at u k \<noteq> None" and no: "\<not> int i < rc"
      from all obtain x where "item_at u (consumed u) = Some x" by auto
      then have "upstream_next u = Some (x, u\<lparr>consumed := Suc (consumed u)\<rparr>)"
        by (simp add: upstream_next_def)
      with body no have "f rc (Suc i) (u\<lparr>consumed := Suc (consumed u)\<rparr>) = Some y"
        by simp
      from IH [OF this] all no show False by simp
    qed
  qed
  with unb past show False by simp
qed

text \<open>
  Claim C5 does not hold of the code. The generator expression of line 86 is lazy and
  yields the first \<open>min L |data|\<close> items in order, but it filters on the index where it
  should stop at the limit. With row limit 1 on a lazy sequence of three items it yields
  the first item and reads all three upstream items before it ends, more than the
  \<open>L + 1 = 2\<close> of the claim. With row limit 1 on a sequence with no end it yields the
  first item, for one upstream item, and the \<^verbatim>\<open>next()\<close> that should discover the
  end never returns.
\<close>

theorem apply_rows_limit_reads_whole_upstream:
  "apply_rows_limit (Some 1) (PyIterable (iter_list [10::nat, 20, 30])) =
     Genexpr 1 0 (iter_list [10, 20, 30]) \<and>
   genexpr_drain 1 0 (iter_list [10::nat, 20, 30]) =
     Some ([10], 3, (iter_list [10, 20, 30])\<lparr>consumed := 3\<rparr>) \<and>
   \<not> consumed ((iter_list [10::nat, 20, 30])\<lparr>consumed := 3\<rparr>) \<le> nat 1 + 1 \<and>
   apply_rows_limit (Some 1) (PyIterable count_up) = Genexpr 1 0 count_up \<and>
   genexpr_pull 1 1 0 count_up = Some ([0], 1, count_up\<lparr>consumed := 1\<rparr>) \<and>
   genexpr_next 1 1 (count_up\<lparr>consumed := 1\<rparr>) = None \<and>
   genexpr_drain 1 0 count_up = None"
proof -
  have finite: "genexpr_drain 1 0 (iter_list [10::nat, 20, 30]) =
     Some ([10], 3, (iter_list [10, 20, 30])\<lparr>consumed := 3\<rparr>)"
    using genexpr_drain_iter_list [of 1 "[10::nat, 20, 30]"] by simp
  have first: "genexpr_next 1 0 count_up = Some (Yield 0, Suc 0, count_up\<lparr>consumed := Suc 0\<rparr>)"
    by (subst genexpr_next.simps) (simp add: upstream_next_def count_up_def)
  have second: "genexpr_next 1 (Suc 0) (count_up\<lparr>consumed := Suc 0\<rparr>) = None"
    by (rule genexpr_next_unbounded) (simp_all add: count_up_def)
  have "genexpr_drain 1 (Suc 0) (count_up\<lparr>consumed := Suc 0\<rparr>) = None"
    by (subst genexpr_drain.simps) (simp add: second)
  then have "genexpr_drain 1 0 count_up = None"
    by (subst genexpr_drain.simps) (simp add: first)
  then have endless: "genexpr_drain 1 0 count_up = None" .
  have pull: "genexpr_pull 1 1 0 count_up = Some ([0], 1, count_up\<lparr>consumed := 1\<rparr>)"
    using first by simp
  from finite endless pull second show ?thesis
    by (simp add: apply_rows_limit_def)
qed

text \<open>
  Claim C9: a str, a bytes or a dict comes back from \<^verbatim>\<open>apply_rows_limit\<close> as it
  went in, whatever the row limit, though each has \<^verbatim>\<open>__iter__\<close>, and so does an
  object that is not iterable; with a row limit set, only a list (sliced) and another
  iterable (wrapped in the generator expression) are limited.
\<close>

theorem apply_rows_limit_str_bytes_dict:
  "apply_rows_limit rows_count (PyStr s) = Data (PyStr s) \<and>
   apply_rows_limit rows_count (PyBytes b) = Data (PyBytes b) \<and>
   apply_rows_limit rows_count (PyDict d) = Data (PyDict d) \<and>
   apply_rows_limit rows_count (PyObject x) = Data (PyObject x) \<and>
   apply_rows_limit (Some n) (PyList xs) = Data (PyList (list_slice xs n)) \<and>
   apply_rows_limit (Some n) (PyIterable u) = Genexpr n 0 u \<and>
   has_iter (PyStr s) \<and> has_iter (PyBytes b) \<and> has_iter (PyDict d)"
  by (simp add: apply_rows_limit_def split: option.splits)

section \<open>Properties of the serialized stream\<close>

lemma per_record_events_context_builds:
  "count_list (per_record_events c objs) GetSerializerContext = length objs"
  by (induction objs) simp_all

lemma serialized_stream_pull_suspended:
  "serializer_context v = Inr c \<Longrightarrow> k \<le> length iterator \<Longrightarrow>
     serialized_stream_pull k v (Suspended sc iterator) log =
       (map (to_one sc c) (take k iterator), Suspended sc (drop k iterator),
        log @ per_record_events c (take k iterator))"
proof (induction k arbitrary: iterator log)
  case 0
  show ?case by simp
next
  case (Suc k)
  then obtain obj rest where it: "iterator = obj # rest" by (cases iterator) auto
  with Suc.prems have "k \<le> length rest" by simp
  from Suc.IH [OF Suc.prems(1) this] it Suc.prems(1) show ?case by simp
qed

lemma serialized_stream_drain_suspended:
  "serializer_context v = Inr c \<Longrightarrow>
     serialized_stream_drain v (Suspended sc iterator) log =
       (map (to_one sc c) iterator, None, log @ per_record_events c iterator)"
proof (induction iterator arbitrary: log)
  case Nil
  show ?case by (simp add: serialized_stream_drain.simps [of v "Suspended sc []"])
next
  case (Cons obj rest)
  from Cons.IH [OF Cons.prems] Cons.prems show ?case
    by (simp add: serialized_stream_drain.simps [of v "Suspended sc (obj # rest)"])
qed

lemma serialized_stream_next_unstarted:
  "serializer_class v = Some sc \<Longrightarrow> open_iterator v q = (Inr iterator, evs) \<Longrightarrow>
     serialized_stream_next v (Unstarted q) log =
       serialized_stream_next v (Suspended sc iterator) (log @ evs)"
  by (simp add: get_serializer_class_def)

lemma serialized_stream_drain_unstarted:
  "serializer_class v = Some sc \<Longrightarrow> open_iterator v q = (Inr iterator, evs) \<Longrightarrow>
     serialized_stream_drain v (Unstarted q) log =
       serialized_stream_drain v (Suspended sc iterator) (log @ evs)"
  by (simp add: serialized_stream_drain.simps [of v "Unstarted q"]
      serialized_stream_drain.simps [of v "Suspended sc iterator"] get_serializer_class_def)

lemma serialized_stream_pull_unstarted:
  "serializer_class v = Some sc \<Longrightarrow> open_iterator v q = (Inr iterator, evs) \<Longrightarrow>
     serialized_stream_pull (Suc k) v (Unstarted q) log =
       serialized_stream_pull (Suc k) v (Suspended sc iterator) (log @ evs)"
  by (simp add: get_serializer_class_def)

lemma open_iterator_default:
  "default_cursor_error q = None \<Longrightarrow> open_iterator v q = (Inr (records q), [CursorOpen None])"
  by (simp add: open_iterator_def qs_iterator_def)

lemma open_iterator_fallback:
  "default_cursor_error q = Some e \<Longrightarrow> needs_chunk_size e \<Longrightarrow> 0 < streaming_chunk_size v \<Longrightarrow>
     open_iterator v q =
       (Inr (records q), [CursorOpen None, CursorOpen (Some (streaming_chunk_size v))])"
  by (simp add: open_iterator_def qs_iterator_def Let_def)

lemma open_iterator_propagates:
  "default_cursor_error q = Some e \<Longrightarrow> \<not> needs_chunk_size e \<Longrightarrow>
     open_iterator v q = (Inl e, [CursorOpen None])"
  by (simp add: open_iterator_def qs_iterator_def)


lemma needs_chunk_size_prefetch_error: "needs_chunk_size prefetch_error"
  by (simp add: prefetch_error_def)

text \<open>
  Claim C3: when the default cursor attempt fails with the recognized
  "chunk_size must be provided" \<^verbatim>\<open>ValueError\<close> and the chunk size is positive (the
  default 1000 is), the generator does not raise: it asks for a cursor exactly twice, once
  with no chunk size and once with the chunk size, and yields the serialized form of every
  record of the query, in the store's order, as materializing the query gives them.
\<close>

theorem serialized_stream_chunk_size_fallback:
  assumes "default_cursor_error q = Some e" and "needs_chunk_size e"
    and "0 < streaming_chunk_size v"
    and "serializer_class v = Some sc" and "serializer_context v = Inr c"
  shows "serialized_stream_drain v (get_serialized_stream v q) log =
           (map (to_one sc c) (records q), None,
            log @ [CursorOpen None, CursorOpen (Some (streaming_chunk_size v))] @
              per_record_events c (records q)) \<and>
         streaming_chunk_size (v\<lparr>csv_streaming_chunk_size := None\<rparr>) = 1000"
proof -
  from assms(1-3) have "open_iterator v q =
      (Inr (records q), [CursorOpen None, CursorOpen (Some (streaming_chunk_size v))])"
    by (rule open_iterator_fallback)
  from serialized_stream_drain_unstarted [OF assms(4) this]
    serialized_stream_drain_suspended [OF assms(5)]
  show ?thesis by (simp add: get_serialized_stream_def streaming_chunk_size_def)
qed

theorem serialized_stream_chunk_size_fallback_witness:
  "serialized_stream_drain example_view
     (get_serialized_stream example_view
        (example_queryset\<lparr>default_cursor_error := Some prefetch_error\<rparr>)) [] =
     ([101, 102, 103], None,
      [CursorOpen None, CursorOpen (Some 1000),
       GetSerializerContext, SerializeOne 100 1,
       GetSerializerContext, SerializeOne 100 2,
       GetSerializerContext, SerializeOne 100 3])"
proof -
  have h1: "default_cursor_error (example_queryset\<lparr>default_cursor_error := Some prefetch_error\<rparr>)
      = Some prefetch_error" by simp
  have h3: "0 < streaming_chunk_size example_view"
    by (simp add: streaming_chunk_size_def example_view_def)
  have h4: "serializer_class example_view = Some example_serializer"
    by (simp add: example_view_def)
  have h5: "serializer_context example_view = Inr 100"
    by (simp add: example_view_def)
  from serialized_stream_chunk_size_fallback [OF h1 needs_chunk_size_prefetch_error h3 h4 h5, of "[]"]
  show ?thesis
    by (simp add: example_queryset_def example_serializer_def streaming_chunk_size_def
        example_view_def)
qed

text \<open>
  Claim C4: when the default cursor attempt fails with any other error (not a
  \<^verbatim>\<open>ValueError\<close>, or one whose message lacks "chunk_size must be provided"), the
  first \<^verbatim>\<open>next()\<close> raises that same error, the only cursor asked for is the
  default one, and no row is yielded.
\<close>

theorem serialized_stream_propagates_other_errors:
  assumes "default_cursor_error q = Some e" and "\<not> needs_chunk_size e"
    and "serializer_class v = Some sc"
  shows "serialized_stream_next v (get_serialized_stream v q) log =
           (Raise e, Finished, log @ [CursorOpen None]) \<and>
         serialized_stream_drain v (get_serialized_stream v q) log =
           ([], Some e, log @ [CursorOpen None])"
proof -
  from assms(1,2) have "open_iterator v q = (Inl e, [CursorOpen None])"
    by (rule open_iterator_propagates)
  with assms(3) have "serialized_stream_next v (Unstarted q) log =
      (Raise e, Finished, log @ [CursorOpen None])"
    by (simp add: get_serializer_class_def)
  then show ?thesis
    by (simp add: get_serialized_stream_def serialized_stream_drain.simps [of v "Unstarted q"])
qed

theorem serialized_stream_propagates_other_errors_witness:
  "\<not> needs_chunk_size (OtherError ''OperationalError'' ''server closed the connection'') \<and>
   \<not> needs_chunk_size (ValueError ''Chunk size must be strictly positive.'') \<and>
   serialized_stream_drain example_view
     (get_serialized_stream example_view
        (example_queryset\<lparr>default_cursor_error :=
           Some (OtherError ''OperationalError'' ''server closed the connection'')\<rparr>)) [] =
     ([], Some (OtherError ''OperationalError'' ''server closed the connection''),
      [CursorOpen None]) \<and>
   serialized_stream_drain example_view
     (get_serialized_stream example_view
        (example_queryset\<lparr>default_cursor_error :=
           Some (ValueError ''Chunk size must be strictly positive.'')\<rparr>)) [] =
     ([], Some (ValueError ''Chunk size must be strictly positive.''), [CursorOpen None])"
proof -
  have h2: "\<not> needs_chunk_size (OtherError ''OperationalError'' ''server closed the connection'')"
    by simp
  have h2': "\<not> needs_chunk_size (ValueError ''Chunk size must be strictly positive.'')"
    by simp
  have h3: "serializer_class example_view = Some example_serializer"
    by (simp add: example_view_def)
  have h1: "default_cursor_error (example_queryset\<lparr>default_cursor_error := Some e\<rparr>) = Some e"
    for e by simp
  from serialized_stream_propagates_other_errors [OF h1 h2 h3, of "[]"]
    serialized_stream_propagates_other_errors [OF h1 h2' h3, of "[]"] h2 h2'
  show ?thesis by simp
qed

lemma limit_queryset_cursor:
  "limit_queryset rows_count q = Inr q' \<Longrightarrow> default_cursor_error q' = default_cursor_error q"
  by (auto simp: limit_queryset_def qs_slice_def split: option.splits if_splits)

lemma open_iterator_first_event: "\<exists>evs. snd (open_iterator v q) = CursorOpen None # evs"
  by (simp add: open_iterator_def Let_def split: sum.splits)

lemma serialized_stream_loop_log:
  "\<exists>evs. snd (snd (serialized_stream_loop v sc iterator log)) = log @ evs"
  by (cases iterator) (simp_all split: sum.splits)

text \<open>
  Claim C10: in streaming mode with a serializer class, \<^verbatim>\<open>get_csv_data\<close> returns
  the generator unstarted and makes no call on the store, whatever state the store is in;
  the first \<^verbatim>\<open>next()\<close> is where the default cursor is asked for, where the
  cursor with a chunk size is asked for after the recognized error, and where a store
  error that is not the recognized one is raised.
\<close>

theorem streaming_export_defers_store:
  assumes "csv_streaming v" and "serializer_class v = Some sc"
    and "limit_queryset (csv_rows_count v) q = Inr q'"
  shows "get_csv_data v q log = (Inr (SerializedStream (Unstarted q')), log) \<and>
         (\<exists>evs. snd (snd (serialized_stream_next v (Unstarted q') log)) =
            log @ CursorOpen None # evs) \<and>
         (\<forall>e. default_cursor_error q = Some e \<and> needs_chunk_size e \<longrightarrow>
            (\<exists>evs. snd (snd (serialized_stream_next v (Unstarted q') log)) =
               log @ CursorOpen None # CursorOpen (Some (streaming_chunk_size v)) # evs)) \<and>
         (\<forall>e. default_cursor_error q = Some e \<and> \<not> needs_chunk_size e \<longrightarrow>
            serialized_stream_next v (Unstarted q') log =
              (Raise e, Finished, log @ [CursorOpen None]))"
proof -
  from assms have call: "get_csv_data v q log = (Inr (SerializedStream (Unstarted q')), log)"
    by (simp add: get_csv_data_def get_serialized_stream_def)
  have logged: "\<exists>evs'. snd (snd (serialized_stream_next v (Unstarted q') log)) =
      log @ evs @ evs'" if op: "open_iterator v q' = (r, evs)" for r evs
  proof (cases r)
    case (Inl e)
    with op assms(2) show ?thesis by (simp add: get_serializer_class_def)
  next
    case (Inr iterator)
    obtain evs' where "snd (snd (serialized_stream_loop v sc iterator (log @ evs))) =
        (log @ evs) @ evs'"
      using serialized_stream_loop_log by blast
    with Inr op assms(2) show ?thesis by (simp add: get_serializer_class_def)
  qed
  have first: "\<exists>evs. snd (snd (serialized_stream_next v (Unstarted q') log)) =
      log @ CursorOpen None # evs"
  proof -
    obtain r evs where "open_iterator v q' = (r, CursorOpen None # evs)"
      using open_iterator_first_event [of v q'] by (cases "open_iterator v q'") auto
    from logged [OF this] show ?thesis by auto
  qed
  have retry: "\<exists>evs. snd (snd (serialized_stream_next v (Unstarted q') log)) =
      log @ CursorOpen None # CursorOpen (Some (streaming_chunk_size v)) # evs"
    if "default_cursor_error q = Some e" "needs_chunk_size e" for e
  proof -
    from that(1) limit_queryset_cursor [OF assms(3)] have "default_cursor_error q' = Some e"
      by simp
    with that(2) have "open_iterator v q' =
        (qs_iterator q' (Some (streaming_chunk_size v)),
         [CursorOpen None, CursorOpen (Some (streaming_chunk_size v))])"
      by (simp add: open_iterator_def qs_iterator_def Let_def)
    from logged [OF this] show ?thesis by auto
  qed
  have fail: "serialized_stream_next v (Unstarted q') log =
      (Raise e, Finished, log @ [CursorOpen None])"
    if "default_cursor_error q = Some e" "\<not> needs_chunk_size e" for e
  proof -
    from that(1) limit_queryset_cursor [OF assms(3)] have "default_cursor_error q' = Some e"
      by simp
    from open_iterator_propagates [OF this that(2), of v] assms(2) show ?thesis
      by (simp add: get_serializer_class_def)
  qed
  from call first retry fail show ?thesis by blast
qed

theorem streaming_export_defers_store_witness:
  "get_csv_data (example_view\<lparr>csv_rows_count := Some 2\<rparr>)
     (example_queryset\<lparr>default_cursor_error := Some (OtherError ''OperationalError'' ''down'')\<rparr>) [] =
     (Inr (SerializedStream (Unstarted
        \<lparr>records = [1, 2], values_of = (\<lambda>r. r),
         default_cursor_error = Some (OtherError ''OperationalError'' ''down'')\<rparr>)), []) \<and>
   serialized_stream_next (example_view\<lparr>csv_rows_count := Some 2\<rparr>)
     (Unstarted \<lparr>records = [1, 2], values_of = (\<lambda>r. r),
         default_cursor_error = Some (OtherError ''OperationalError'' ''down'')\<rparr>) [] =
     (Raise (OtherError ''OperationalError'' ''down''), Finished, [CursorOpen None])"
proof -
  let ?v = "example_view\<lparr>csv_rows_count := Some 2\<rparr>"
  let ?e = "OtherError ''OperationalError'' ''down''"
  let ?q = "example_queryset\<lparr>default_cursor_error := Some ?e\<rparr>"
  let ?q' = "\<lparr>records = [1, 2], values_of = (\<lambda>r. r), default_cursor_error = Some ?e\<rparr>
    :: (nat, nat) queryset"
  have h1: "csv_streaming ?v" by (simp add: example_view_def)
  have h2: "serializer_class ?v = Some example_serializer" by (simp add: example_view_def)
  have h3: "limit_queryset (csv_rows_count ?v) ?q = Inr ?q'"
    by (simp add: limit_queryset_def qs_slice_def example_queryset_def)
  have h4: "default_cursor_error ?q = Some ?e \<and> \<not> needs_chunk_size ?e" by simp
  from streaming_export_defers_store [OF h1 h2 h3, of "[]"] h4 show ?thesis by simp
qed

lemma serialized_stream_drain_example:
  "serialized_stream_drain example_view (get_serialized_stream example_view example_queryset) [] =
     ([101, 102, 103], None,
      [CursorOpen None,
       GetSerializerContext, SerializeOne 100 1,
       GetSerializerContext, SerializeOne 100 2,
       GetSerializerContext, SerializeOne 100 3])"
proof -
  have sc: "serializer_class example_view = Some example_serializer"
    and c: "serializer_context example_view = Inr 100"
    by (simp_all add: example_view_def)
  have "open_iterator example_view example_queryset = (Inr (records example_queryset), [CursorOpen None])"
    by (rule open_iterator_default) (simp add: example_queryset_def)
  from serialized_stream_drain_unstarted [OF sc this] serialized_stream_drain_suspended [OF c]
  show ?thesis
    by (simp add: get_serialized_stream_def example_queryset_def example_serializer_def)
qed

text \<open>
  Claim C7, as stated, fails: streaming three records, the generator calls
  \<^verbatim>\<open>get_serializer_context()\<close> three times, once before each serializer run, not
  once for the whole iteration.
\<close>

theorem serialized_stream_context_counterexample:
  "snd (snd (serialized_stream_drain example_view
       (get_serialized_stream example_view example_queryset) [])) =
     [CursorOpen None,
      GetSerializerContext, SerializeOne 100 1,
      GetSerializerContext, SerializeOne 100 2,
      GetSerializerContext, SerializeOne 100 3] \<and>
   count_list (snd (snd (serialized_stream_drain example_view
       (get_serialized_stream example_view example_queryset) []))) GetSerializerContext = 3 \<and>
   \<not> count_list (snd (snd (serialized_stream_drain example_view
       (get_serialized_stream example_view example_queryset) []))) GetSerializerContext \<le> 1"
  by (simp add: serialized_stream_drain_example)

text \<open>
  Claim C7, amended: in streaming mode with a serializer class, once the cursor is open and
  while the context can be built, pulling \<open>k\<close> rows runs the serializer exactly once per
  yielded row, on the first \<open>k\<close> records only and in their order, and each run is
  preceded by its own call of \<^verbatim>\<open>get_serializer_context()\<close>: \<open>k\<close> rows cost
  \<open>k\<close> context builds; pulling nothing leaves the generator unstarted.
\<close>

theorem serialized_stream_per_record:
  assumes "serializer_class v = Some sc" and "serializer_context v = Inr c"
    and "fst (open_iterator v q) = Inr iterator"
    and "0 < k" and "k \<le> length (records q)"
  shows "serialized_stream_pull k v (get_serialized_stream v q) log =
           (map (to_one sc c) (take k (records q)), Suspended sc (drop k (records q)),
            log @ snd (open_iterator v q) @ per_record_events c (take k (records q))) \<and>
         count_list (per_record_events c (take k (records q))) GetSerializerContext = k \<and>
         serialized_stream_pull 0 v (get_serialized_stream v q) log =
           ([], Unstarted q, log)"
proof -
  obtain evs where op: "open_iterator v q = (Inr iterator, evs)"
    using assms(3) by (cases "open_iterator v q") simp
  then have it: "iterator = records q" by (rule open_iterator_records)
  from assms(4) obtain j where k: "k = Suc j" by (cases k) auto
  have "serialized_stream_pull k v (Unstarted q) log =
      serialized_stream_pull k v (Suspended sc iterator) (log @ evs)"
    unfolding k by (rule serialized_stream_pull_unstarted [OF assms(1) op])
  also have "\<dots> = (map (to_one sc c) (take k iterator), Suspended sc (drop k iterator),
        (log @ evs) @ per_record_events c (take k iterator))"
    using assms(5) it by (intro serialized_stream_pull_suspended [OF assms(2)]) simp
  finally show ?thesis
    using assms(5) op it
    by (simp add: get_serialized_stream_def per_record_events_context_builds)
qed

theorem serialized_stream_per_record_witness:
  "serialized_stream_pull 2 example_view (get_serialized_stream example_view example_queryset) [] =
     ([101, 102], Suspended example_serializer [3],
      [CursorOpen None,
       GetSerializerContext, SerializeOne 100 1,
       GetSerializerContext, SerializeOne 100 2])"
proof -
  have h1: "serializer_class example_view = Some example_serializer"
    and h2: "serializer_context example_view = Inr 100"
    by (simp_all add: example_view_def)
  have op: "open_iterator example_view example_queryset = (Inr (records example_queryset), [CursorOpen None])"
    by (rule open_iterator_default) (simp add: example_queryset_def)
  then have h3: "fst (open_iterator example_view example_queryset) = Inr (records example_queryset)"
    by simp
  have h4: "0 < (2::nat)" by simp
  have h5: "2 \<le> length (records example_queryset)" by (simp add: example_queryset_def)
  from serialized_stream_per_record [OF h1 h2 h3 h4 h5, of "[]"] op show ?thesis
    by (simp add: example_queryset_def example_serializer_def get_serialized_stream_def)
qed

text \<open>
  Claim C6, as stated, fails: with streaming on, a serializer class set and a context that
  cannot be built, \<^verbatim>\<open>get_csv_data\<close> raises nothing and returns the generator; the
  error comes out of the first \<^verbatim>\<open>next()\<close>.
\<close>

theorem streaming_export_context_error_counterexample:
  "get_csv_data
     (example_view\<lparr>serializer_context := Inl (OtherError ''AttributeError'' ''request'')\<rparr>)
     example_queryset [] =
     (Inr (SerializedStream (Unstarted example_queryset)), []) \<and>
   serialized_stream_next
     (example_view\<lparr>serializer_context := Inl (OtherError ''AttributeError'' ''request'')\<rparr>)
     (Unstarted example_queryset) [] =
     (Raise (OtherError ''AttributeError'' ''request''), Finished,
      [CursorOpen None, GetSerializerContext])"
  by (simp add: get_csv_data_def limit_queryset_def get_serialized_stream_def example_view_def
      get_serializer_class_def open_iterator_def qs_iterator_def example_queryset_def)

text \<open>
  Claim C6, amended: in streaming mode \<^verbatim>\<open>get_csv_data\<close> raises no error about the
  transform when it is called: whatever the serializer configuration, it returns a lazy
  sequence (the generator when a serializer class is set, the raw field mappings
  otherwise). When the context cannot be built and the cursor opens, the error of
  \<^verbatim>\<open>get_serializer_context()\<close> is raised while the sequence is consumed, before
  any row is yielded, and not at all when the query has no record.
\<close>

theorem streaming_export_context_error_deferred:
  assumes "csv_streaming v" and "limit_queryset (csv_rows_count v) q = Inr q'"
  shows "get_csv_data v q log =
           (Inr (case serializer_class v of
                   Some sc \<Rightarrow> SerializedStream (get_serialized_stream v q')
                 | None \<Rightarrow> ValuesStream (qs_values q')), log) \<and>
         (\<forall>sc e iterator.
            serializer_class v = Some sc \<and> serializer_context v = Inl e \<and>
            fst (open_iterator v q') = Inr iterator \<longrightarrow>
            consume v (SerializedStream (get_serialized_stream v q')) log =
              ([], if records q' = [] then None else Some e,
               log @ snd (open_iterator v q') @
                 (if records q' = [] then [] else [GetSerializerContext])))"
proof -
  from assms have call: "get_csv_data v q log =
           (Inr (case serializer_class v of
                   Some sc \<Rightarrow> SerializedStream (get_serialized_stream v q')
                 | None \<Rightarrow> ValuesStream (qs_values q')), log)"
    by (simp add: get_csv_data_def split: option.splits)
  have deferred: "consume v (SerializedStream (get_serialized_stream v q')) log =
              ([], if records q' = [] then None else Some e,
               log @ snd (open_iterator v q') @
                 (if records q' = [] then [] else [GetSerializerContext]))"
    if h: "serializer_class v = Some sc" "serializer_context v = Inl e"
      "fst (open_iterator v q') = Inr iterator" for sc e iterator
  proof -
    obtain evs where op: "open_iterator v q' = (Inr iterator, evs)"
      using h(3) by (cases "open_iterator v q'") simp
    then have it: "iterator = records q'" by (rule open_iterator_records)
    show ?thesis
    proof (cases "records q'")
      case Nil
      with h op it show ?thesis
        by (simp add: get_serialized_stream_def get_serializer_class_def
            serialized_stream_drain.simps [of v "Unstarted q'"])
    next
      case (Cons obj rest)
      with h op it show ?thesis
        by (simp add: get_serialized_stream_def get_serializer_class_def
            serialized_stream_drain.simps [of v "Unstarted q'"])
    qed
  qed
  from call deferred show ?thesis by blast
qed

theorem streaming_export_context_error_deferred_witness:
  "consume
     (example_view\<lparr>serializer_context := Inl (OtherError ''AttributeError'' ''request'')\<rparr>)
     (SerializedStream (get_serialized_stream
        (example_view\<lparr>serializer_context := Inl (OtherError ''AttributeError'' ''request'')\<rparr>)
        example_queryset)) [] =
     ([], Some (OtherError ''AttributeError'' ''request''),
      [CursorOpen None, GetSerializerContext])"
proof -
  let ?v = "example_view\<lparr>serializer_context := Inl (OtherError ''AttributeError'' ''request'')\<rparr>"
  have h1: "csv_streaming ?v" by (simp add: example_view_def)
  have h2: "limit_queryset (csv_rows_count ?v) example_queryset = Inr example_queryset"
    by (simp add: limit_queryset_def example_view_def)
  have op: "open_iterator ?v example_queryset = (Inr (records example_queryset), [CursorOpen None])"
    by (rule open_iterator_default) (simp add: example_queryset_def)
  have h3: "serializer_class ?v = Some example_serializer \<and>
      serializer_context ?v = Inl (OtherError ''AttributeError'' ''request'') \<and>
      fst (open_iterator ?v example_queryset) = Inr (records example_queryset)"
    using op by (simp add: example_view_def)
  have ne: "records example_queryset \<noteq> []" by (simp add: example_queryset_def)
  from streaming_export_context_error_deferred [OF h1 h2, of "[]"] h3 op ne
  show ?thesis by auto
qed

section \<open>Properties of get\_csv\_data\<close>

lemma limit_queryset_Some:
  "0 \<le> L \<Longrightarrow> limit_queryset (Some L) q = Inr (q\<lparr>records := take (nat L) (records q)\<rparr>)"
  by (simp add: limit_queryset_def qs_slice_def)

text \<open>
  Claim C8: in non-streaming mode with a row limit \<open>L\<close>, whatever the serializer
  configuration, the query is first restricted to its first \<open>L\<close> records and the
  paginator is then asked with the restricted query. When a serializer class is set, the
  serializer is run once, with \<^verbatim>\<open>many=True\<close>, on the whole page (or on the whole
  restricted query when the paginator gives no page), and no per-record run is made. When
  none is set, the raw field mappings of the page or of the restricted query are returned;
  a page that is a list has no \<^verbatim>\<open>values()\<close>, and line 45 raises.
\<close>

theorem non_streaming_limit_page_batch:
  assumes "\<not> csv_streaming v" and "csv_rows_count v = Some L" and "0 \<le> L"
  shows "(\<exists>r evs. get_csv_data v q log =
            (r, log @ Paginate (take (nat L) (records q)) # evs)) \<and>
         (\<forall>e. paginate_queryset v (q\<lparr>records := take (nat L) (records q)\<rparr>) = Inl e \<longrightarrow>
            get_csv_data v q log = (Inl e, log @ [Paginate (take (nat L) (records q))])) \<and>
         (\<forall>page sc c.
            paginate_queryset v (q\<lparr>records := take (nat L) (records q)\<rparr>) = Inr page \<and>
            serializer_class v = Some sc \<and> serializer_context v = Inr c \<longrightarrow>
            get_csv_data v q log =
              (Inr (Rows (to_many sc c
                 (case page of None \<Rightarrow> take (nat L) (records q) | Some p \<Rightarrow> page_records p))),
               log @ [Paginate (take (nat L) (records q)), GetSerializerContext,
                      SerializeMany c
                        (case page of None \<Rightarrow> take (nat L) (records q)
                         | Some p \<Rightarrow> page_records p)])) \<and>
         (\<forall>page.
            paginate_queryset v (q\<lparr>records := take (nat L) (records q)\<rparr>) = Inr page \<and>
            serializer_class v = None \<longrightarrow>
            get_csv_data v q log =
              (case page of
                 None \<Rightarrow> Inr (Rows (map (values_of q) (take (nat L) (records q))))
               | Some (PageQuery pq) \<Rightarrow> Inr (Rows (qs_values pq))
               | Some (PageList objs) \<Rightarrow>
                   Inl (OtherError ''AttributeError'' ''list object has no attribute values''),
               log @ [Paginate (take (nat L) (records q))]))"
proof -
  let ?q = "q\<lparr>records := take (nat L) (records q)\<rparr>"
  let ?log = "log @ [Paginate (take (nat L) (records q))]"
  from assms have unfold: "get_csv_data v q log =
      (case paginate_queryset v ?q of
         Inl e \<Rightarrow> (Inl e, ?log)
       | Inr page \<Rightarrow>
           (case serializer_class v of
              Some sc \<Rightarrow>
                get_serializer_many v
                  (page_records (case page of None \<Rightarrow> PageQuery ?q | Some p \<Rightarrow> p)) ?log
            | None \<Rightarrow>
                (case page_values (case page of None \<Rightarrow> PageQuery ?q | Some p \<Rightarrow> p) of
                   Inl e \<Rightarrow> (Inl e, ?log)
                 | Inr rows \<Rightarrow> (Inr (Rows rows), ?log))))"
    by (simp add: get_csv_data_def limit_queryset_Some Let_def split: sum.splits)
  have order: "\<exists>r evs. get_csv_data v q log =
            (r, log @ Paginate (take (nat L) (records q)) # evs)"
    unfolding unfold
    by (auto simp: get_serializer_many_def split: sum.splits option.splits)
  have raised: "get_csv_data v q log = (Inl e, ?log)" if "paginate_queryset v ?q = Inl e" for e
    unfolding unfold using that by simp
  have batch: "get_csv_data v q log =
              (Inr (Rows (to_many sc c
                 (case page of None \<Rightarrow> take (nat L) (records q) | Some p \<Rightarrow> page_records p))),
               log @ [Paginate (take (nat L) (records q)), GetSerializerContext,
                      SerializeMany c
                        (case page of None \<Rightarrow> take (nat L) (records q)
                         | Some p \<Rightarrow> page_records p)])"
    if "paginate_queryset v ?q = Inr page" "serializer_class v = Some sc"
      "serializer_context v = Inr c" for page sc c
    unfolding unfold using that
    by (simp add: get_serializer_many_def get_serializer_class_def split: option.splits)
  have raw: "get_csv_data v q log =
              (case page of
                 None \<Rightarrow> Inr (Rows (map (values_of q) (take (nat L) (records q))))
               | Some (PageQuery pq) \<Rightarrow> Inr (Rows (qs_values pq))
               | Some (PageList objs) \<Rightarrow>
                   Inl (OtherError ''AttributeError'' ''list object has no attribute values''),
               ?log)"
    if "paginate_queryset v ?q = Inr page" "serializer_class v = None" for page
    unfolding unfold using that
    by (simp add: qs_values_def split: option.splits page.splits)
  from order raised batch raw show ?thesis by blast
qed

theorem non_streaming_limit_page_batch_witness:
  "get_csv_data
     (example_view\<lparr>csv_streaming := False, csv_rows_count := Some 2,
        paginate_queryset := example_paginator\<rparr>) example_queryset [] =
     (Inr (Rows [102]), [Paginate [1, 2], GetSerializerContext, SerializeMany 100 [2]]) \<and>
   get_csv_data
     (example_view\<lparr>csv_streaming := False, csv_rows_count := Some 2,
        paginate_queryset := example_paginator, serializer_class := None\<rparr>) example_queryset [] =
     (Inl (OtherError ''AttributeError'' ''list object has no attribute values''),
      [Paginate [1, 2]]) \<and>
   get_csv_data
     (example_view\<lparr>csv_streaming := False, csv_rows_count := Some 2,
        serializer_class := None\<rparr>) example_queryset [] =
     (Inr (Rows [1, 2]), [Paginate [1, 2]])"
proof -
  let ?v = "example_view\<lparr>csv_streaming := False, csv_rows_count := Some 2,
        paginate_queryset := example_paginator\<rparr>"
  let ?w = "example_view\<lparr>csv_streaming := False, csv_rows_count := Some 2,
        paginate_queryset := example_paginator, serializer_class := None\<rparr>"
  let ?x = "example_view\<lparr>csv_streaming := False, csv_rows_count := Some 2,
        serializer_class := None\<rparr>"
  let ?q = "example_queryset\<lparr>records := take (nat 2) (records example_queryset)\<rparr>"
  have v: "\<not> csv_streaming ?v" "csv_rows_count ?v = Some 2"
    and w: "\<not> csv_streaming ?w" "csv_rows_count ?w = Some 2"
    and x: "\<not> csv_streaming ?x" "csv_rows_count ?x = Some 2"
    and L: "(0::int) \<le> 2"
    by (simp_all add: example_view_def)
  have hv: "paginate_queryset ?v ?q = Inr (Some (PageList [2])) \<and>
      serializer_class ?v = Some example_serializer \<and> serializer_context ?v = Inr 100"
    by (simp add: example_view_def example_paginator_def example_queryset_def)
  have hw: "paginate_queryset ?w ?q = Inr (Some (PageList [2])) \<and> serializer_class ?w = None"
    by (simp add: example_view_def example_paginator_def example_queryset_def)
  have hx: "paginate_queryset ?x ?q = Inr None \<and> serializer_class ?x = None"
    by (simp add: example_view_def)
  from non_streaming_limit_page_batch [OF v L, of example_queryset "[]"] hv
  have 1: "get_csv_data ?v example_queryset [] =
      (Inr (Rows [102]), [Paginate [1, 2], GetSerializerContext, SerializeMany 100 [2]])"
    by (simp add: example_queryset_def example_serializer_def)
  from non_streaming_limit_page_batch [OF w L, of example_queryset "[]"] hw
  have 2: "get_csv_data ?w example_queryset [] =
      (Inl (OtherError ''AttributeError'' ''list object has no attribute values''),
       [Paginate [1, 2]])"
    by (simp add: example_queryset_def)
  from non_streaming_limit_page_batch [OF x L, of example_queryset "[]"] hx
  have 3: "get_csv_data ?x example_queryset [] = (Inr (Rows [1, 2]), [Paginate [1, 2]])"
    by (simp add: example_queryset_def)
  from 1 2 3 show ?thesis by simp
qed

text \<open>
  Claim C1, as stated, fails when a paginator narrows the query: with three records, row
  limit 2 and a page of offset 1 and limit 2, the limited export has one row, not
  \<open>min 3 2\<close>, and it is not the first two rows of the export with no limit. It fails
  too, with no paginator, for a serializer whose batch form has a list-wide effect: the
  two rows of the limited export are not the first two rows of the export with no limit.
\<close>

theorem non_streaming_limit_counterexample:
  "fst (get_csv_data
     (example_view\<lparr>csv_streaming := False, csv_rows_count := Some 2,
        paginate_queryset := example_paginator\<rparr>) example_queryset []) = Inr (Rows [102]) \<and>
   fst (get_csv_data
     (example_view\<lparr>csv_streaming := False, csv_rows_count := None,
        paginate_queryset := example_paginator\<rparr>) example_queryset []) = Inr (Rows [102, 103]) \<and>
   length [102::nat] \<noteq> min (length (records example_queryset)) (nat 2) \<and>
   [102::nat] \<noteq> take (nat 2) [102, 103] \<and>
   fst (get_csv_data
     (example_view\<lparr>csv_streaming := False, csv_rows_count := Some 2,
        serializer_class := Some example_counting_serializer\<rparr>) example_queryset []) =
     Inr (Rows [103, 104]) \<and>
   fst (get_csv_data
     (example_view\<lparr>csv_streaming := False, csv_rows_count := None,
        serializer_class := Some example_counting_serializer\<rparr>) example_queryset []) =
     Inr (Rows [104, 105, 106]) \<and>
   [103, 104::nat] \<noteq> take (nat 2) [104, 105, 106]"
  by (simp add: get_csv_data_def limit_queryset_def qs_slice_def example_view_def
      example_paginator_def example_queryset_def get_serializer_many_def
      get_serializer_class_def example_serializer_def example_counting_serializer_def)

text \<open>
  Claim C1, amended: when the paginator gives no page, and either no serializer class is
  set or the context can be built and the serializer's batch form is its per-record form
  mapped over the records, the non-streaming export with row limit \<open>L \<ge> 0\<close> has exactly
  \<open>min |Q| L\<close> rows, and they are the first \<open>L\<close> rows of the non-streaming export
  with no row limit.
\<close>

theorem non_streaming_limit_prefix:
  assumes "\<not> csv_streaming v" and "0 \<le> L"
    and "\<And>q'. paginate_queryset v q' = Inr None"
    and "serializer_class v = None \<or>
         (\<exists>sc c. serializer_class v = Some sc \<and> serializer_context v = Inr c \<and>
            to_many sc c = map (to_one sc c))"
  shows "\<exists>rows. fst (get_csv_data (v\<lparr>csv_rows_count := None\<rparr>) q log) = Inr (Rows rows) \<and>
           fst (get_csv_data (v\<lparr>csv_rows_count := Some L\<rparr>) q log) =
             Inr (Rows (take (nat L) rows)) \<and>
           length (take (nat L) rows) = min (length (records q)) (nat L)"
proof -
  from assms(4) show ?thesis
  proof
    assume none: "serializer_class v = None"
    have "fst (get_csv_data (v\<lparr>csv_rows_count := None\<rparr>) q log) = Inr (Rows (qs_values q))"
      using assms(1,3) none by (simp add: get_csv_data_def limit_queryset_def)
    moreover have "fst (get_csv_data (v\<lparr>csv_rows_count := Some L\<rparr>) q log) =
        Inr (Rows (take (nat L) (qs_values q)))"
      using assms(1-3) none
      by (simp add: get_csv_data_def limit_queryset_Some qs_values_def take_map)
    moreover have "length (take (nat L) (qs_values q)) = min (length (records q)) (nat L)"
      by (simp add: qs_values_def min.commute)
    ultimately show ?thesis by blast
  next
    assume "\<exists>sc c. serializer_class v = Some sc \<and> serializer_context v = Inr c \<and>
            to_many sc c = map (to_one sc c)"
    then obtain sc c where sc: "serializer_class v = Some sc"
      and c: "serializer_context v = Inr c" and many: "to_many sc c = map (to_one sc c)"
      by blast
    have "fst (get_csv_data (v\<lparr>csv_rows_count := None\<rparr>) q log) =
        Inr (Rows (map (to_one sc c) (records q)))"
      using assms(1,3) sc c many
      by (simp add: get_csv_data_def limit_queryset_def get_serializer_many_def
          get_serializer_class_def)
    moreover have "fst (get_csv_data (v\<lparr>csv_rows_count := Some L\<rparr>) q log) =
        Inr (Rows (take (nat L) (map (to_one sc c) (records q))))"
      using assms(1-3) sc c many
      by (simp add: get_csv_data_def limit_queryset_Some get_serializer_many_def
          get_serializer_class_def take_map)
    moreover have "length (take (nat L) (map (to_one sc c) (records q))) =
        min (length (records q)) (nat L)"
      by (simp add: min.commute)
    ultimately show ?thesis by blast
  qed
qed

theorem non_streaming_limit_prefix_witness:
  "fst (get_csv_data (example_view\<lparr>csv_streaming := False, csv_rows_count := None\<rparr>)
     example_queryset []) = Inr (Rows [101, 102, 103]) \<and>
   fst (get_csv_data (example_view\<lparr>csv_streaming := False, csv_rows_count := Some 2\<rparr>)
     example_queryset []) = Inr (Rows [101, 102])"
proof -
  let ?v = "example_view\<lparr>csv_streaming := False\<rparr>"
  have h1: "\<not> csv_streaming ?v" by simp
  have h2: "(0::int) \<le> 2" by simp
  have h3: "paginate_queryset ?v q' = Inr None" for q' by (simp add: example_view_def)
  have "serializer_class ?v = Some example_serializer \<and> serializer_context ?v = Inr 100 \<and>
      to_many example_serializer 100 = map (to_one example_serializer 100)"
    by (simp add: example_view_def example_serializer_def)
  then have h4: "serializer_class ?v = None \<or>
         (\<exists>sc c. serializer_class ?v = Some sc \<and> serializer_context ?v = Inr c \<and>
            to_many sc c = map (to_one sc c))" by blast
  have all: "fst (get_csv_data (?v\<lparr>csv_rows_count := None\<rparr>) example_queryset []) =
      Inr (Rows [101, 102, 103])"
    by (simp add: get_csv_data_def limit_queryset_def example_view_def example_queryset_def
        get_serializer_many_def get_serializer_class_def example_serializer_def)
  from non_streaming_limit_prefix [OF h1 h2 h3 h4, of example_queryset "[]"] all
  show ?thesis by auto
qed

text \<open>
  Claim C2, as stated, fails: the paginator is applied in non-streaming mode only. With
  three records, no row limit and a page of offset 1 and limit 2, the streaming export
  yields three rows and the non-streaming export two. It fails too, with no paginator,
  for a serializer whose batch form has a list-wide effect: the streaming export runs the
  per-record form and the non-streaming export the batch form.
\<close>

theorem streaming_differs_counterexample:
  "get_csv_data (example_view\<lparr>csv_streaming := True, paginate_queryset := example_paginator\<rparr>)
     example_queryset [] = (Inr (SerializedStream (Unstarted example_queryset)), []) \<and>
   fst (consume (example_view\<lparr>csv_streaming := True, paginate_queryset := example_paginator\<rparr>)
     (SerializedStream (Unstarted example_queryset)) []) = [101, 102, 103] \<and>
   fst (get_csv_data (example_view\<lparr>csv_streaming := False, paginate_queryset := example_paginator\<rparr>)
     example_queryset []) = Inr (Rows [102, 103]) \<and>
   [101, 102, 103] \<noteq> [102, 103::nat] \<and>
   get_csv_data
     (example_view\<lparr>csv_streaming := True, serializer_class := Some example_counting_serializer\<rparr>)
     example_queryset [] = (Inr (SerializedStream (Unstarted example_queryset)), []) \<and>
   fst (consume
     (example_view\<lparr>csv_streaming := True, serializer_class := Some example_counting_serializer\<rparr>)
     (SerializedStream (Unstarted example_queryset)) []) = [101, 102, 103] \<and>
   fst (get_csv_data
     (example_view\<lparr>csv_streaming := False, serializer_class := Some example_counting_serializer\<rparr>)
     example_queryset []) = Inr (Rows [104, 105, 106]) \<and>
   [101, 102, 103] \<noteq> [104, 105, 106::nat]"
proof -
  let ?v = "example_view\<lparr>csv_streaming := True, paginate_queryset := example_paginator\<rparr>"
  let ?w = "example_view\<lparr>csv_streaming := True,
    serializer_class := Some example_counting_serializer\<rparr>"
  have sc: "serializer_class ?v = Some example_serializer"
    and c: "serializer_context ?v = Inr 100"
    and sc': "serializer_class ?w = Some example_counting_serializer"
    and c': "serializer_context ?w = Inr 100"
    by (simp_all add: example_view_def)
  have op: "open_iterator v example_queryset = (Inr (records example_queryset), [CursorOpen None])"
    for v :: "(nat, nat, nat) view"
    by (rule open_iterator_default) (simp add: example_queryset_def)
  from serialized_stream_drain_unstarted [OF sc op] serialized_stream_drain_suspended [OF c]
  have paged: "fst (consume ?v (SerializedStream (Unstarted example_queryset)) []) = [101, 102, 103]"
    by (simp add: example_queryset_def example_serializer_def)
  from serialized_stream_drain_unstarted [OF sc' op] serialized_stream_drain_suspended [OF c']
  have counted: "fst (consume ?w (SerializedStream (Unstarted example_queryset)) []) = [101, 102, 103]"
    by (simp add: example_queryset_def example_counting_serializer_def)
  from paged counted show ?thesis
    by (simp add: get_csv_data_def limit_queryset_def example_view_def
      example_paginator_def example_queryset_def get_serializer_many_def
      get_serializer_class_def example_serializer_def get_serialized_stream_def
      example_counting_serializer_def)
qed

text \<open>
  Claim C2, amended: for a row limit the store accepts, when the paginator gives no page,
  and either no serializer class is set or the context can be built, the cursor opens
  (at once or by the chunk size fallback) and the serializer's batch form is its
  per-record form mapped over the records, the streaming export is a lazy sequence whose
  consumption ends without an error and yields, row for row, the list the non-streaming
  export returns.
\<close>

theorem streaming_matches_non_streaming:
  assumes "limit_queryset (csv_rows_count v) q = Inr q'"
    and "paginate_queryset v q' = Inr None"
    and "serializer_class v = None \<or>
         (\<exists>sc c iterator. serializer_class v = Some sc \<and> serializer_context v = Inr c \<and>
            to_many sc c = map (to_one sc c) \<and> fst (open_iterator v q') = Inr iterator)"
  shows "\<exists>d rows. fst (get_csv_data (v\<lparr>csv_streaming := True\<rparr>) q log) = Inr d \<and> is_lazy d \<and>
           fst (get_csv_data (v\<lparr>csv_streaming := False\<rparr>) q log) = Inr (Rows rows) \<and>
           fst (consume (v\<lparr>csv_streaming := True\<rparr>) d log) = rows \<and>
           fst (snd (consume (v\<lparr>csv_streaming := True\<rparr>) d log)) = None"
proof -
  let ?s = "v\<lparr>csv_streaming := True\<rparr>"
  from assms(3) show ?thesis
  proof
    assume none: "serializer_class v = None"
    have "fst (get_csv_data ?s q log) = Inr (ValuesStream (qs_values q'))"
      using assms(1) none by (simp add: get_csv_data_def)
    moreover have "fst (get_csv_data (v\<lparr>csv_streaming := False\<rparr>) q log) =
        Inr (Rows (qs_values q'))"
      using assms(1,2) none by (simp add: get_csv_data_def)
    ultimately show ?thesis by simp
  next
    assume "\<exists>sc c iterator. serializer_class v = Some sc \<and> serializer_context v = Inr c \<and>
            to_many sc c = map (to_one sc c) \<and> fst (open_iterator v q') = Inr iterator"
    then obtain sc c iterator where sc: "serializer_class v = Some sc"
      and c: "serializer_context v = Inr c" and many: "to_many sc c = map (to_one sc c)"
      and it: "fst (open_iterator v q') = Inr iterator"
      by blast
    have sc': "serializer_class ?s = Some sc" and c': "serializer_context ?s = Inr c"
      using sc c by simp_all
    have chunk: "streaming_chunk_size ?s = streaming_chunk_size v"
      by (simp add: streaming_chunk_size_def)
    have "open_iterator ?s q' = open_iterator v q'"
      unfolding open_iterator_def chunk by (rule refl)
    with it obtain evs where op: "open_iterator ?s q' = (Inr iterator, evs)"
      by (cases "open_iterator v q'") simp
    then have recs: "iterator = records q'" by (rule open_iterator_records)
    have lazy: "fst (get_csv_data ?s q log) = Inr (SerializedStream (Unstarted q'))"
      using assms(1) sc by (simp add: get_csv_data_def get_serialized_stream_def)
    have eager: "fst (get_csv_data (v\<lparr>csv_streaming := False\<rparr>) q log) =
        Inr (Rows (map (to_one sc c) (records q')))"
      using assms(1,2) sc c many
      by (simp add: get_csv_data_def get_serializer_many_def get_serializer_class_def)
    have "consume ?s (SerializedStream (Unstarted q')) log =
        (map (to_one sc c) (records q'), None, (log @ evs) @ per_record_events c (records q'))"
      using serialized_stream_drain_unstarted [OF sc' op, of log]
        serialized_stream_drain_suspended [OF c', of sc iterator "log @ evs"] recs
      by simp
    with lazy eager show ?thesis by simp
  qed
qed

theorem streaming_matches_non_streaming_witness:
  "fst (get_csv_data (example_view\<lparr>csv_rows_count := Some 2, csv_streaming := False\<rparr>)
     example_queryset []) = Inr (Rows [101, 102]) \<and>
   fst (get_csv_data (example_view\<lparr>csv_rows_count := Some 2, csv_streaming := True\<rparr>)
     example_queryset []) =
     Inr (SerializedStream (Unstarted (example_queryset\<lparr>records := [1, 2]\<rparr>))) \<and>
   fst (consume (example_view\<lparr>csv_rows_count := Some 2, csv_streaming := True\<rparr>)
     (SerializedStream (Unstarted (example_queryset\<lparr>records := [1, 2]\<rparr>))) []) = [101, 102]"
proof -
  let ?v = "example_view\<lparr>csv_rows_count := Some 2\<rparr>"
  let ?q' = "example_queryset\<lparr>records := [1, 2]\<rparr>"
  have h1: "limit_queryset (csv_rows_count ?v) example_queryset = Inr ?q'"
    by (simp add: limit_queryset_def qs_slice_def example_queryset_def)
  have h2: "paginate_queryset ?v ?q' = Inr None" by (simp add: example_view_def)
  have "open_iterator ?v ?q' = (Inr (records ?q'), [CursorOpen None])"
    by (rule open_iterator_default) (simp add: example_queryset_def)
  then have "serializer_class ?v = Some example_serializer \<and> serializer_context ?v = Inr 100 \<and>
      to_many example_serializer 100 = map (to_one example_serializer 100) \<and>
      fst (open_iterator ?v ?q') = Inr (records ?q')"
    by (simp add: example_view_def example_serializer_def)
  then have h3: "serializer_class ?v = None \<or>
         (\<exists>sc c iterator. serializer_class ?v = Some sc \<and> serializer_context ?v = Inr c \<and>
            to_many sc c = map (to_one sc c) \<and> fst (open_iterator ?v ?q') = Inr iterator)"
    by blast
  have eager: "fst (get_csv_data (?v\<lparr>csv_streaming := False\<rparr>) example_queryset []) =
      Inr (Rows [101, 102])"
    by (simp add: get_csv_data_def limit_queryset_def qs_slice_def example_view_def
        example_queryset_def get_serializer_many_def get_serializer_class_def
        example_serializer_def)
  have lazy: "fst (get_csv_data (?v\<lparr>csv_streaming := True\<rparr>) example_queryset []) =
      Inr (SerializedStream (Unstarted ?q'))"
    by (simp add: get_csv_data_def limit_queryset_def qs_slice_def example_view_def
        example_queryset_def get_serialized_stream_def)
  from streaming_matches_non_streaming [OF h1 h2 h3, of "[]"] eager lazy
  show ?thesis by auto
qed

end
